theory Spec2Isabelle
  imports Complex_Main "HOL-Library.Word" "HOL-Library.Multiset"
begin

section \<open>Package gcs: the cost model and the strategy selector\<close>

subsection \<open>A model of Go's float64\<close>

text \<open>
  A \<^verbatim>\<open>float64\<close> is one of the IEEE-754 special values (not-a-number and the two
  infinities) or a finite number. Finite numbers are carried as exact reals: the
  rounding of a finite result to a 53-bit significand, overflow of a finite result to an
  infinity, underflow to zero, and the sign of zero are not modelled (a zero divisor is read
  as \<open>+0\<close>, which is the only zero the divisions of this package can meet on integer
  inputs). The special values follow IEEE-754 and the documentation of Go's \<^verbatim>\<open>math\<close>
  package, so that \<open>0 * (-Inf)\<close>, \<open>Log2(0)\<close> and comparisons with NaN behave as they do
  in Go.
\<close>

datatype f64 = Fin real | PInf | NInf | NaN

instantiation f64 :: "{plus, minus, uminus, times, inverse, ord}"
begin

fun uminus_f64 :: "f64 \<Rightarrow> f64" where
  "uminus_f64 (Fin x) = Fin (- x)"
| "uminus_f64 PInf = NInf"
| "uminus_f64 NInf = PInf"
| "uminus_f64 NaN = NaN"

fun plus_f64 :: "f64 \<Rightarrow> f64 \<Rightarrow> f64" where
  "plus_f64 NaN b = NaN"
| "plus_f64 a NaN = NaN"
| "plus_f64 (Fin x) (Fin y) = Fin (x + y)"
| "plus_f64 PInf NInf = NaN"
| "plus_f64 NInf PInf = NaN"
| "plus_f64 PInf b = PInf"
| "plus_f64 a PInf = PInf"
| "plus_f64 NInf b = NInf"
| "plus_f64 a NInf = NInf"

definition minus_f64 :: "f64 \<Rightarrow> f64 \<Rightarrow> f64" where
  "minus_f64 a b = a + (- b)"

fun times_f64 :: "f64 \<Rightarrow> f64 \<Rightarrow> f64" where
  "times_f64 NaN b = NaN"
| "times_f64 a NaN = NaN"
| "times_f64 (Fin x) (Fin y) = Fin (x * y)"
| "times_f64 (Fin x) PInf = (if x = 0 then NaN else if 0 < x then PInf else NInf)"
| "times_f64 (Fin x) NInf = (if x = 0 then NaN else if 0 < x then NInf else PInf)"
| "times_f64 PInf (Fin y) = (if y = 0 then NaN else if 0 < y then PInf else NInf)"
| "times_f64 NInf (Fin y) = (if y = 0 then NaN else if 0 < y then NInf else PInf)"
| "times_f64 PInf PInf = PInf"
| "times_f64 PInf NInf = NInf"
| "times_f64 NInf PInf = NInf"
| "times_f64 NInf NInf = PInf"

fun divide_f64 :: "f64 \<Rightarrow> f64 \<Rightarrow> f64" where
  "divide_f64 NaN b = NaN"
| "divide_f64 a NaN = NaN"
| "divide_f64 (Fin x) (Fin y) =
     (if y = 0 then (if x = 0 then NaN else if 0 < x then PInf else NInf)
      else Fin (x / y))"
| "divide_f64 (Fin x) PInf = Fin 0"
| "divide_f64 (Fin x) NInf = Fin 0"
| "divide_f64 PInf (Fin y) = (if 0 \<le> y then PInf else NInf)"
| "divide_f64 NInf (Fin y) = (if 0 \<le> y then NInf else PInf)"
| "divide_f64 a b = NaN"

definition inverse_f64 :: "f64 \<Rightarrow> f64" where
  "inverse_f64 a = divide (Fin 1) a"

fun less_f64 :: "f64 \<Rightarrow> f64 \<Rightarrow> bool" where
  "less_f64 NaN b = False"
| "less_f64 a NaN = False"
| "less_f64 (Fin x) (Fin y) = (x < y)"
| "less_f64 a NInf = False"
| "less_f64 PInf b = False"
| "less_f64 NInf b = True"
| "less_f64 a PInf = True"

fun less_eq_f64 :: "f64 \<Rightarrow> f64 \<Rightarrow> bool" where
  "less_eq_f64 NaN b = False"
| "less_eq_f64 a NaN = False"
| "less_eq_f64 (Fin x) (Fin y) = (x \<le> y)"
| "less_eq_f64 NInf b = True"
| "less_eq_f64 a PInf = True"
| "less_eq_f64 a NInf = False"
| "less_eq_f64 PInf b = False"

instance ..

end

text \<open>
  \<^verbatim>\<open>math.Exp\<close>: \<open>Exp(+Inf) = +Inf\<close>, \<open>Exp(NaN) = NaN\<close>, and very negative arguments
  go to \<open>0\<close>.
\<close>

fun Exp :: "f64 \<Rightarrow> f64" where
  "Exp (Fin x) = Fin (exp x)"
| "Exp PInf = PInf"
| "Exp NInf = Fin 0"
| "Exp NaN = NaN"

text \<open>
  \<^verbatim>\<open>math.Log2\<close>, whose special cases are those of \<^verbatim>\<open>math.Log\<close>:
  \<open>Log(+Inf) = +Inf\<close>, \<open>Log(0) = -Inf\<close>, \<open>Log(x < 0) = NaN\<close>, \<open>Log(NaN) = NaN\<close>.
\<close>

fun Log2 :: "f64 \<Rightarrow> f64" where
  "Log2 (Fin x) = (if x = 0 then NInf else if x < 0 then NaN else Fin (log 2 x))"
| "Log2 PInf = PInf"
| "Log2 NInf = NaN"
| "Log2 NaN = NaN"

text \<open>
  The conversion \<^verbatim>\<open>float64(i)\<close> of a Go \<^verbatim>\<open>int\<close>. The sizes are mathematical
  integers here; every value of Go's 64-bit \<^verbatim>\<open>int\<close> is one of them.
\<close>

definition float64 :: "int \<Rightarrow> f64" where
  "float64 i = Fin (real_of_int i)"

subsection \<open>The source: constants, \<^verbatim>\<open>MatchType\<close>, the cost functions, \<^verbatim>\<open>Optimize\<close>\<close>

definition M :: f64 where
  "M = Fin 784931"

text \<open>
  \<^verbatim>\<open>MatchType\<close> is a \<^verbatim>\<open>uint8\<close> with three named values. Other values of the byte, for
  which \<^verbatim>\<open>String\<close> returns \<^verbatim>\<open>"Unknown"\<close>, are not modelled; \<^verbatim>\<open>Optimize\<close> returns
  named values only.
\<close>

datatype MatchType = MatchBlock | MatchZip | MatchHash

fun String :: "MatchType \<Rightarrow> string" where
  "String MatchBlock = ''Block''"
| "String MatchZip = ''Zip''"
| "String MatchHash = ''Hash''"

definition CostSort :: f64 where "CostSort = Fin 130"
definition CostRead :: f64 where "CostRead = Fin 30"
definition CostInsert :: f64 where "CostInsert = Fin 45"
definition CostLookup :: f64 where "CostLookup = Fin 30"
definition CostComp :: f64 where "CostComp = Fin 1"
definition CostKey :: f64 where "CostKey = Fin 3"

definition costZip :: "f64 \<Rightarrow> f64 \<Rightarrow> f64 \<Rightarrow> f64" where
  "costZip q expQ expN =
     q * CostKey +
     q * Log2 q * CostSort +
     (expQ + expN) * CostComp +
     expN * CostRead"

definition costHash :: "f64 \<Rightarrow> f64 \<Rightarrow> f64 \<Rightarrow> f64" where
  "costHash q n expQ =
     n * (CostInsert + CostRead) +
     expQ * CostKey +
     expQ * CostLookup"

definition expQueries :: "f64 \<Rightarrow> f64" where
  "expQueries q = M * (Fin 1 - Exp (- q / M))"

definition expQuerySlot :: "f64 \<Rightarrow> f64 \<Rightarrow> f64 \<Rightarrow> f64" where
  "expQuerySlot q n expQ = (n * M / (q + Fin 1)) * expQ"

definition expReads :: "f64 \<Rightarrow> f64 \<Rightarrow> f64 \<Rightarrow> f64" where
  "expReads q n expQ = ((n + Fin 1) / (q + Fin 1)) * expQ"

definition Optimize :: "int \<Rightarrow> int \<Rightarrow> MatchType \<times> f64" where
  "Optimize querySize filterSize =
     (let Q = float64 querySize;
          N = float64 filterSize;
          expQ = expQueries Q;
          expN = expReads Q N expQ;
          cZip = costZip Q expQ expN;
          cHash = costHash Q N expQ
      in if cZip < cHash then (MatchZip, cZip / cHash)
         else (MatchHash, cHash / cZip))"

text \<open>
  The values of \<^verbatim>\<open>Optimize\<close>'s local variables \<^verbatim>\<open>cZip\<close> and \<^verbatim>\<open>cHash\<close>, as
  functions of its two arguments.
\<close>

definition cZip :: "int \<Rightarrow> int \<Rightarrow> f64" where
  "cZip querySize filterSize =
     costZip (float64 querySize) (expQueries (float64 querySize))
       (expReads (float64 querySize) (float64 filterSize) (expQueries (float64 querySize)))"

definition cHash :: "int \<Rightarrow> int \<Rightarrow> f64" where
  "cHash querySize filterSize =
     costHash (float64 querySize) (float64 filterSize) (expQueries (float64 querySize))"

subsection \<open>The specification's closed forms, over the reals\<close>

text \<open>
  These definitions follow the words of the specification (section 4.2), not the code:
  the weights under the specification's names, and its four formulas read as real
  arithmetic.
\<close>

definition sortWeight :: real where "sortWeight = 130"
definition readWeight :: real where "readWeight = 30"
definition insertWeight :: real where "insertWeight = 45"
definition lookupWeight :: real where "lookupWeight = 30"
definition compareWeight :: real where "compareWeight = 1"
definition keyWeight :: real where "keyWeight = 3"

definition spec_M :: real where "spec_M = 784931"

definition spec_expQ :: "real \<Rightarrow> real" where
  "spec_expQ Q = spec_M * (1 - exp (- Q / spec_M))"

definition spec_expN :: "real \<Rightarrow> real \<Rightarrow> real \<Rightarrow> real" where
  "spec_expN Q N expQ = ((N + 1) / (Q + 1)) * expQ"

definition spec_costZip :: "real \<Rightarrow> real \<Rightarrow> real \<Rightarrow> real" where
  "spec_costZip Q expQ expN =
     Q * keyWeight + Q * log 2 Q * sortWeight + (expQ + expN) * compareWeight + expN * readWeight"

definition spec_costHash :: "real \<Rightarrow> real \<Rightarrow> real" where
  "spec_costHash N expQ =
     N * (insertWeight + readWeight) + expQ * keyWeight + expQ * lookupWeight"

section \<open>Package gcs: the two matchers\<close>

text \<open>
  The source files hold the cost model and the selector only; the two matching strategies
  are described by the specification (sections 2, 3, 4.3 and 4.4) and are modelled from
  its words. A \<open>ReducedValue\<close> is a 64-bit unsigned integer. The filter is given by its
  decoded entries, which the specification requires to be non-decreasing (duplicates
  allowed), and both matchers have the "exists" result: whether any query value is in the
  filter.
\<close>

type_synonym ReducedValue = "64 word"

text \<open>
  Modelled from the spec: the merge-walk of section 4.3, absent from the source files. One
  cursor into each ascending sequence; equal heads are a match and stop the walk, a smaller
  filter entry advances the filter cursor, a smaller query value advances the query
  cursor, and the walk ends without a match when either sequence is exhausted.
\<close>

fun mergeWalk :: "ReducedValue list \<Rightarrow> ReducedValue list \<Rightarrow> bool" where
  "mergeWalk [] qs = False"
| "mergeWalk (f # fs) [] = False"
| "mergeWalk (f # fs) (q # qs) =
     (if f = q then True
      else if f < q then mergeWalk fs (q # qs)
      else mergeWalk (f # fs) qs)"

text \<open>
  Modelled from the spec: the Merge Matcher (Zip strategy) of section 4.3, absent from the
  source files. The reduced query values are sorted ascending, then walked against the
  filter entries.
\<close>

definition MergeMatcher :: "ReducedValue list \<Rightarrow> ReducedValue list \<Rightarrow> bool" where
  "MergeMatcher filter_entries queries = mergeWalk filter_entries (sort queries)"

text \<open>
  Modelled from the spec: the probing loop of the Hash Matcher of section 4.4, absent from
  the source files. Each reduced query value is looked up in the set; the first hit stops
  the loop.
\<close>

fun probe :: "ReducedValue set \<Rightarrow> ReducedValue list \<Rightarrow> bool" where
  "probe s [] = False"
| "probe s (q # qs) = (if q \<in> s then True else probe s qs)"

text \<open>
  Modelled from the spec: the Hash Matcher (Hash strategy) of section 4.4, absent from the
  source files. Every filter entry is decoded and inserted into a set, then the query
  values are probed.
\<close>

definition HashMatcher :: "ReducedValue list \<Rightarrow> ReducedValue list \<Rightarrow> bool" where
  "HashMatcher filter_entries queries = probe (fold insert filter_entries {}) queries"

text \<open>
  Modelled from the spec: the control flow of section 2, absent from the source files. The
  caller gives the two sizes to \<open>Optimize\<close> and runs the matcher whose tag it returns.
\<close>

definition selectAndMatch :: "ReducedValue list \<Rightarrow> ReducedValue list \<Rightarrow> bool" where
  "selectAndMatch filter_entries queries =
     (if fst (Optimize (int (length queries)) (int (length filter_entries))) = MatchZip
      then MergeMatcher filter_entries queries
      else HashMatcher filter_entries queries)"

section \<open>Package txsort\<close>

subsection \<open>The transaction types of package wire, and the heap\<close>

text \<open>
  \<^verbatim>\<open>Sort\<close> and its relatives work on a \<^verbatim>\<open>*wire.MsgTx\<close>, whose \<^verbatim>\<open>TxIn\<close> and
  \<^verbatim>\<open>TxOut\<close> fields are slices of pointers, and they sort by swapping the elements of a
  slice in place. What is shared and what is copied decides what a caller sees afterwards,
  so objects live in an explicit heap and are named by their addresses:
  \<^item> a \<^verbatim>\<open>*wire.TxIn\<close>, \<^verbatim>\<open>*wire.TxOut\<close> or \<^verbatim>\<open>*wire.MsgTx\<close> is the address of an object;
  \<^item> a slice of pointers is the address of its backing array, and covers the whole array
    (no function here re-slices or appends to a slice it was given);
  \<^item> a byte slice (a script, a context) and the 32-byte array of a hash are values: no
    function here writes to one, and \<^verbatim>\<open>Less\<close> reverses copies of the two hashes;
  \<^item> every address holds an object: nil pointers, and the run-time panic of following
    one, are not modelled;
  \<^item> \<open>nextAddr\<close> is the first address not yet allocated.
\<close>

type_synonym byte = "8 word"
type_synonym addr = nat

record wire_OutPoint =
  Hash :: "byte list"
  Index :: "32 word"

record wire_TxIn =
  PreviousOutPoint :: wire_OutPoint
  SignatureScript :: "byte list"
  Witness :: "byte list list"
  Sequence :: "32 word"

text \<open>\<open>Value\<close> is an \<^verbatim>\<open>int64\<close>: a 64-bit word, compared through \<open>sint\<close>.\<close>

record wire_TxOut =
  Value :: "64 word"
  PkScript :: "byte list"

record wire_MsgTx =
  Version :: "32 word"
  TxIn :: addr
  TxOut :: addr
  LockTime :: "32 word"

text \<open>
  The struct \<^verbatim>\<open>txOutWithContext\<close>: an embedded \<^verbatim>\<open>*wire.TxOut\<close> (here \<open>TxOutPtr\<close>) and
  the context bytes.
\<close>

record txOutWithContext =
  TxOutPtr :: addr
  Context :: "byte list"

record heap =
  msgTxs :: "addr \<Rightarrow> wire_MsgTx"
  txIns :: "addr \<Rightarrow> wire_TxIn"
  txOuts :: "addr \<Rightarrow> wire_TxOut"
  inArrays :: "addr \<Rightarrow> addr list"
  outArrays :: "addr \<Rightarrow> addr list"
  ctxArrays :: "addr \<Rightarrow> txOutWithContext list"
  nextAddr :: addr

subsection \<open>Package sort of the standard library\<close>

text \<open>
  \<^verbatim>\<open>sort.Interface\<close> is the three methods \<^verbatim>\<open>Len\<close>, \<^verbatim>\<open>Less\<close> and \<^verbatim>\<open>Swap\<close>; the
  receiver reads the heap, and \<^verbatim>\<open>Swap\<close> writes it.
\<close>

record Interface =
  Len :: "heap \<Rightarrow> nat"
  Less :: "heap \<Rightarrow> nat \<Rightarrow> nat \<Rightarrow> bool"
  Swap :: "heap \<Rightarrow> nat \<Rightarrow> nat \<Rightarrow> heap"

text \<open>
  \<^verbatim>\<open>sort.Sort\<close> is modelled by the insertion sort the library itself runs on short
  slices:
  \<^verbatim>\<open>for i := a + 1; i < b; i++ { for j := i; j > a && data.Less(j, j-1); j-- { data.Swap(j, j-1) } }\<close>
  with \<open>a = 0\<close> and \<open>b = data.Len()\<close>; \<open>sift\<close> is its inner loop. On longer slices the
  library switches to other algorithms, whose result is ordered in the same sense and
  reached by calls of \<^verbatim>\<open>Swap\<close> alone, but may order elements that compare equal
  differently.
\<close>

fun sift :: "Interface \<Rightarrow> nat \<Rightarrow> heap \<Rightarrow> heap" where
  "sift data 0 h = h"
| "sift data (Suc j) h =
     (if Less data h (Suc j) j then sift data j (Swap data h (Suc j) j) else h)"

definition sort_Sort :: "Interface \<Rightarrow> heap \<Rightarrow> heap" where
  "sort_Sort data h = fold (sift data) [1..<Len data h] h"

text \<open>
  \<^verbatim>\<open>sort.IsSorted\<close>:
  \<^verbatim>\<open>n := data.Len(); for i := n - 1; i > 0; i-- { if data.Less(i, i-1) { return false } }; return true\<close>
\<close>

definition sort_IsSorted :: "Interface \<Rightarrow> heap \<Rightarrow> bool" where
  "sort_IsSorted data h = list_all (\<lambda>i. \<not> Less data h i (i - 1)) (rev [1..<Len data h])"

text \<open>\<^verbatim>\<open>bytes.Compare\<close>: the lexicographic comparison, with result \<open>-1\<close>, \<open>0\<close> or \<open>1\<close>.\<close>

fun bytes_Compare :: "byte list \<Rightarrow> byte list \<Rightarrow> int" where
  "bytes_Compare [] [] = 0"
| "bytes_Compare [] (y # ys) = - 1"
| "bytes_Compare (x # xs) [] = 1"
| "bytes_Compare (x # xs) (y # ys) =
     (if x < y then - 1 else if y < x then 1 else bytes_Compare xs ys)"

subsection \<open>The three sortable slice types\<close>

text \<open>The assignment \<^verbatim>\<open>s[i], s[j] = s[j], s[i]\<close>.\<close>

definition swapAt :: "'a list \<Rightarrow> nat \<Rightarrow> nat \<Rightarrow> 'a list" where
  "swapAt s i j = s[i := s ! j, j := s ! i]"

definition hashSize :: nat where
  "hashSize = 32"

text \<open>
  The loop of \<^verbatim>\<open>sortableInputSlice.Less\<close> that reverses a hash in place:
  \<^verbatim>\<open>for b := 0; b < hashSize/2; b++ { hash[b], hash[hashSize-1-b] = hash[hashSize-1-b], hash[b] }\<close>
\<close>

definition reverseHash :: "byte list \<Rightarrow> byte list" where
  "reverseHash hash = fold (\<lambda>b hash. swapAt hash b (hashSize - 1 - b)) [0..<hashSize div 2] hash"

text \<open>
  The bodies of the three \<^verbatim>\<open>Less\<close> methods, on the elements \<^verbatim>\<open>s[i]\<close> and \<^verbatim>\<open>s[j]\<close>
  they read.
\<close>

definition inputLess :: "wire_TxIn \<Rightarrow> wire_TxIn \<Rightarrow> bool" where
  "inputLess si sj =
     (let ihash = Hash (PreviousOutPoint si);
          jhash = Hash (PreviousOutPoint sj)
      in if ihash = jhash then Index (PreviousOutPoint si) < Index (PreviousOutPoint sj)
         else bytes_Compare (reverseHash ihash) (reverseHash jhash) = - 1)"

definition outputLess :: "wire_TxOut \<Rightarrow> wire_TxOut \<Rightarrow> bool" where
  "outputLess si sj =
     (if Value si = Value sj then bytes_Compare (PkScript si) (PkScript sj) < 0
      else sint (Value si) < sint (Value sj))"

definition contextLess :: "heap \<Rightarrow> txOutWithContext \<Rightarrow> txOutWithContext \<Rightarrow> bool" where
  "contextLess h si sj =
     (if Value (txOuts h (TxOutPtr si)) \<noteq> Value (txOuts h (TxOutPtr sj))
      then sint (Value (txOuts h (TxOutPtr si))) < sint (Value (txOuts h (TxOutPtr sj)))
      else let pkScriptCmp =
                 bytes_Compare (PkScript (txOuts h (TxOutPtr si))) (PkScript (txOuts h (TxOutPtr sj)))
           in if pkScriptCmp \<noteq> 0 then pkScriptCmp = - 1
              else bytes_Compare (Context si) (Context sj) = - 1)"

text \<open>
  The conversions \<^verbatim>\<open>sortableInputSlice(s)\<close> and \<^verbatim>\<open>sortableOutputSlice(s)\<close> of a slice,
  and a value of type \<^verbatim>\<open>sortableOutputContextSlice\<close>, each with its three methods. A
  conversion shares the backing array of the slice it converts.
\<close>

definition sortableInputSlice :: "addr \<Rightarrow> Interface" where
  "sortableInputSlice s =
     \<lparr> Len = (\<lambda>h. length (inArrays h s)),
       Less = (\<lambda>h i j. inputLess (txIns h (inArrays h s ! i)) (txIns h (inArrays h s ! j))),
       Swap = (\<lambda>h i j. h\<lparr>inArrays := (inArrays h)(s := swapAt (inArrays h s) i j)\<rparr>) \<rparr>"

definition sortableOutputSlice :: "addr \<Rightarrow> Interface" where
  "sortableOutputSlice s =
     \<lparr> Len = (\<lambda>h. length (outArrays h s)),
       Less = (\<lambda>h i j. outputLess (txOuts h (outArrays h s ! i)) (txOuts h (outArrays h s ! j))),
       Swap = (\<lambda>h i j. h\<lparr>outArrays := (outArrays h)(s := swapAt (outArrays h s) i j)\<rparr>) \<rparr>"

definition sortableOutputContextSlice :: "addr \<Rightarrow> Interface" where
  "sortableOutputContextSlice s =
     \<lparr> Len = (\<lambda>h. length (ctxArrays h s)),
       Less = (\<lambda>h i j. contextLess h (ctxArrays h s ! i) (ctxArrays h s ! j)),
       Swap = (\<lambda>h i j. h\<lparr>ctxArrays := (ctxArrays h)(s := swapAt (ctxArrays h s) i j)\<rparr>) \<rparr>"

subsection \<open>\<^verbatim>\<open>wire.MsgTx.Copy\<close>\<close>

text \<open>
  \<^verbatim>\<open>Copy\<close> belongs to package wire of btcd. It makes a deep copy: a new \<^verbatim>\<open>MsgTx\<close> with
  the same version and lock time, whose two slices have new backing arrays holding
  pointers to new \<^verbatim>\<open>TxIn\<close> and \<^verbatim>\<open>TxOut\<close> objects with the field values of the old ones,
  in the old order.
\<close>

fun copyTxIns :: "heap \<Rightarrow> addr list \<Rightarrow> heap \<times> addr list" where
  "copyTxIns h [] = (h, [])"
| "copyTxIns h (oldTxIn # rest) =
     (let newTxIn = nextAddr h;
          h1 = h\<lparr>txIns := (txIns h)(newTxIn := txIns h oldTxIn), nextAddr := nextAddr h + 1\<rparr>;
          (h2, news) = copyTxIns h1 rest
      in (h2, newTxIn # news))"

fun copyTxOuts :: "heap \<Rightarrow> addr list \<Rightarrow> heap \<times> addr list" where
  "copyTxOuts h [] = (h, [])"
| "copyTxOuts h (oldTxOut # rest) =
     (let newTxOut = nextAddr h;
          h1 = h\<lparr>txOuts := (txOuts h)(newTxOut := txOuts h oldTxOut), nextAddr := nextAddr h + 1\<rparr>;
          (h2, news) = copyTxOuts h1 rest
      in (h2, newTxOut # news))"

definition Copy :: "heap \<Rightarrow> addr \<Rightarrow> heap \<times> addr" where
  "Copy h msg =
     (let (h1, newIns) = copyTxIns h (inArrays h (TxIn (msgTxs h msg)));
          (h2, newOuts) = copyTxOuts h1 (outArrays h1 (TxOut (msgTxs h1 msg)));
          inArr = nextAddr h2;
          outArr = nextAddr h2 + 1;
          newTx = nextAddr h2 + 2
      in (h2\<lparr>inArrays := (inArrays h2)(inArr := newIns),
              outArrays := (outArrays h2)(outArr := newOuts),
              msgTxs := (msgTxs h2)(newTx :=
                \<lparr>Version = Version (msgTxs h2 msg), TxIn = inArr, TxOut = outArr,
                 LockTime = LockTime (msgTxs h2 msg)\<rparr>),
              nextAddr := nextAddr h2 + 3\<rparr>, newTx))"

subsection \<open>The functions of txsort\<close>

definition InPlaceSort :: "heap \<Rightarrow> addr \<Rightarrow> heap" where
  "InPlaceSort h tx =
     (let h1 = sort_Sort (sortableInputSlice (TxIn (msgTxs h tx))) h;
          h2 = sort_Sort (sortableOutputSlice (TxOut (msgTxs h1 tx))) h1
      in h2)"

definition Sort :: "heap \<Rightarrow> addr \<Rightarrow> heap \<times> addr" where
  "Sort h tx =
     (let (h1, txCopy) = Copy h tx;
          h2 = sort_Sort (sortableInputSlice (TxIn (msgTxs h1 txCopy))) h1;
          h3 = sort_Sort (sortableOutputSlice (TxOut (msgTxs h2 txCopy))) h2
      in (h3, txCopy))"

definition IsSorted :: "heap \<Rightarrow> addr \<Rightarrow> bool" where
  "IsSorted h tx =
     (if \<not> sort_IsSorted (sortableInputSlice (TxIn (msgTxs h tx))) h then False
      else if \<not> sort_IsSorted (sortableOutputSlice (TxOut (msgTxs h tx))) h then False
      else True)"

text \<open>A panic is a value; a function that can panic returns \<open>Inl\<close> of it.\<close>

datatype panic = Panic string

text \<open>
  \<^verbatim>\<open>makeSortableOutputContextSlice\<close> allocates the backing array of its result and
  fills element \<open>i\<close> from \<^verbatim>\<open>txouts[i]\<close> and \<^verbatim>\<open>ctxts[i]\<close>. The contexts \<^verbatim>\<open>ctxts\<close> are a list
  of byte strings.
\<close>

definition makeSortableOutputContextSlice ::
    "heap \<Rightarrow> addr \<Rightarrow> byte list list \<Rightarrow> panic + heap \<times> addr" where
  "makeSortableOutputContextSlice h txouts ctxts =
     (if length (outArrays h txouts) \<noteq> length ctxts
      then Inl (Panic ''length of txouts and contexts must be equal'')
      else let contextualOutputs = nextAddr h
           in Inr (h\<lparr>ctxArrays := (ctxArrays h)(contextualOutputs :=
                       map (\<lambda>i. \<lparr>TxOutPtr = outArrays h txouts ! i, Context = ctxts ! i\<rparr>)
                         [0..<length (outArrays h txouts)]),
                     nextAddr := nextAddr h + 1\<rparr>, contextualOutputs))"

definition InPlaceContextualSort :: "heap \<Rightarrow> addr \<Rightarrow> byte list list \<Rightarrow> panic + heap" where
  "InPlaceContextualSort h tx ctxts =
     (let h1 = sort_Sort (sortableInputSlice (TxIn (msgTxs h tx))) h
      in case makeSortableOutputContextSlice h1 (TxOut (msgTxs h1 tx)) ctxts of
           Inl p \<Rightarrow> Inl p
         | Inr (h2, s) \<Rightarrow> Inr (sort_Sort (sortableOutputContextSlice s) h2))"

text \<open>
  In \<^verbatim>\<open>ContextualSort\<close> the second \<^verbatim>\<open>sort.Sort\<close> is given
  \<^verbatim>\<open>makeSortableOutputContextSlice(tx.TxOut, ctxts)\<close>: the outputs of \<^verbatim>\<open>tx\<close>, not of
  \<^verbatim>\<open>txCopy\<close>, zipped into a new slice.
\<close>

definition ContextualSort :: "heap \<Rightarrow> addr \<Rightarrow> byte list list \<Rightarrow> panic + heap \<times> addr" where
  "ContextualSort h tx ctxts =
     (let (h1, txCopy) = Copy h tx;
          h2 = sort_Sort (sortableInputSlice (TxIn (msgTxs h1 txCopy))) h1
      in case makeSortableOutputContextSlice h2 (TxOut (msgTxs h2 tx)) ctxts of
           Inl p \<Rightarrow> Inl p
         | Inr (h3, s) \<Rightarrow> Inr (sort_Sort (sortableOutputContextSlice s) h3, txCopy))"

definition IsContextualSorted :: "heap \<Rightarrow> addr \<Rightarrow> byte list list \<Rightarrow> panic + bool" where
  "IsContextualSorted h tx ctxts =
     (if \<not> sort_IsSorted (sortableInputSlice (TxIn (msgTxs h tx))) h then Inr False
      else case makeSortableOutputContextSlice h (TxOut (msgTxs h tx)) ctxts of
             Inl p \<Rightarrow> Inl p
           | Inr (h1, s) \<Rightarrow>
               if \<not> sort_IsSorted (sortableOutputContextSlice s) h1 then Inr False
               else Inr True)"

subsection \<open>Notions used to state and prove the properties\<close>

text \<open>
  Everything a transaction reaches is allocated: the transaction, its two backing arrays
  and the objects they point to lie below \<open>nextAddr\<close>.
\<close>

definition validTx :: "heap \<Rightarrow> addr \<Rightarrow> bool" where
  "validTx h tx =
     (tx < nextAddr h \<and> TxIn (msgTxs h tx) < nextAddr h \<and> TxOut (msgTxs h tx) < nextAddr h \<and>
      list_all (\<lambda>p. p < nextAddr h) (inArrays h (TxIn (msgTxs h tx))) \<and>
      list_all (\<lambda>p. p < nextAddr h) (outArrays h (TxOut (msgTxs h tx))))"

text \<open>
  The frame condition: every object and array that was allocated in \<open>h\<close> is the same in
  \<open>h'\<close>; the step from \<open>h\<close> to \<open>h'\<close> has only allocated.
\<close>

definition unchangedBelow :: "heap \<Rightarrow> heap \<Rightarrow> bool" where
  "unchangedBelow h h' =
     (nextAddr h \<le> nextAddr h' \<and>
      (\<forall>a. a < nextAddr h \<longrightarrow>
         msgTxs h' a = msgTxs h a \<and> txIns h' a = txIns h a \<and> txOuts h' a = txOuts h a \<and>
         inArrays h' a = inArrays h a \<and> outArrays h' a = outArrays h a \<and>
         ctxArrays h' a = ctxArrays h a))"

text \<open>The values of a transaction's outputs, in the order of its \<^verbatim>\<open>TxOut\<close> slice.\<close>

definition outputValues :: "heap \<Rightarrow> addr \<Rightarrow> int list" where
  "outputValues h tx =
     map (\<lambda>p. sint (Value (txOuts h p))) (outArrays h (TxOut (msgTxs h tx)))"

text \<open>
  The insertion sort on a list with an ordering of its elements: \<open>siftList\<close> and
  \<open>sortList\<close> are \<open>sift\<close> and \<open>sort_Sort\<close> without the heap, and \<open>bubble\<close> and
  \<open>insertAll\<close> are the same sort by structural recursion, building the result back to
  front.
\<close>

fun siftList :: "('a \<Rightarrow> 'a \<Rightarrow> bool) \<Rightarrow> nat \<Rightarrow> 'a list \<Rightarrow> 'a list" where
  "siftList lt 0 xs = xs"
| "siftList lt (Suc j) xs =
     (if lt (xs ! Suc j) (xs ! j) then siftList lt j (swapAt xs (Suc j) j) else xs)"

definition sortList :: "('a \<Rightarrow> 'a \<Rightarrow> bool) \<Rightarrow> 'a list \<Rightarrow> 'a list" where
  "sortList lt xs = fold (siftList lt) [1..<length xs] xs"

fun bubble :: "('a \<Rightarrow> 'a \<Rightarrow> bool) \<Rightarrow> 'a \<Rightarrow> 'a list \<Rightarrow> 'a list" where
  "bubble lt x [] = [x]"
| "bubble lt x (y # ys) = (if lt x y then y # bubble lt x ys else x # y # ys)"

definition insertAll :: "('a \<Rightarrow> 'a \<Rightarrow> bool) \<Rightarrow> 'a list \<Rightarrow> 'a list" where
  "insertAll lt xs = foldl (\<lambda>ys x. bubble lt x ys) [] xs"

subsection \<open>An example transaction\<close>

text \<open>
  A heap with one transaction, at address \<open>7\<close>. Its two inputs spend outputs \<open>0\<close> of two
  transactions whose hashes differ in the first and in the last byte, and stand in
  descending order; its two outputs have the values \<open>2\<close> and \<open>1\<close>, in this order, and empty
  scripts. Neither slice is sorted.
\<close>

definition emptyHeap :: heap where
  "emptyHeap =
     \<lparr> msgTxs = (\<lambda>a. \<lparr>Version = 0, TxIn = 0, TxOut = 0, LockTime = 0\<rparr>),
       txIns = (\<lambda>a. \<lparr>PreviousOutPoint = \<lparr>Hash = replicate 32 0, Index = 0\<rparr>,
                      SignatureScript = [], Witness = [], Sequence = 0\<rparr>),
       txOuts = (\<lambda>a. \<lparr>Value = 0, PkScript = []\<rparr>),
       inArrays = (\<lambda>a. []),
       outArrays = (\<lambda>a. []),
       ctxArrays = (\<lambda>a. []),
       nextAddr = 1 \<rparr>"

definition exampleHeap :: heap where
  "exampleHeap = emptyHeap
     \<lparr> txIns := (txIns emptyHeap)
         (1 := \<lparr>PreviousOutPoint = \<lparr>Hash = replicate 31 0 @ [1], Index = 0\<rparr>,
                SignatureScript = [], Witness = [], Sequence = 0\<rparr>,
          2 := \<lparr>PreviousOutPoint = \<lparr>Hash = 1 # replicate 31 0, Index = 0\<rparr>,
                SignatureScript = [], Witness = [], Sequence = 0\<rparr>),
       txOuts := (txOuts emptyHeap)
         (3 := \<lparr>Value = 2, PkScript = []\<rparr>, 4 := \<lparr>Value = 1, PkScript = []\<rparr>),
       inArrays := (inArrays emptyHeap)(5 := [1, 2]),
       outArrays := (outArrays emptyHeap)(6 := [3, 4]),
       msgTxs := (msgTxs emptyHeap)(7 := \<lparr>Version = 1, TxIn = 5, TxOut = 6, LockTime = 0\<rparr>),
       nextAddr := 8 \<rparr>"



section \<open>Properties of the cost model and the selector\<close>

subsection \<open>Arithmetic with NaN, and the cost functions on finite arguments\<close>

lemmas weights = keyWeight_def sortWeight_def compareWeight_def readWeight_def insertWeight_def
  lookupWeight_def

lemmas costs = CostSort_def CostRead_def CostInsert_def CostLookup_def CostComp_def CostKey_def

lemma NaN_right [simp]:
  "a + NaN = NaN" "a * NaN = NaN" "a / NaN = NaN" "\<not> a < NaN" "\<not> a \<le> NaN"
  by (cases a; simp)+

lemma expQueries_Fin: "expQueries (Fin q) = Fin (spec_expQ q)"
  by (simp add: expQueries_def spec_expQ_def spec_M_def M_def minus_f64_def)

lemma expReads_Fin: "q + 1 \<noteq> 0 \<Longrightarrow> expReads (Fin q) (Fin n) (Fin e) = Fin (spec_expN q n e)"
  by (simp add: expReads_def spec_expN_def)

lemma costZip_Fin: "0 < q \<Longrightarrow> costZip (Fin q) (Fin e) (Fin en) = Fin (spec_costZip q e en)"
  by (simp add: costZip_def spec_costZip_def costs weights)

lemma costHash_Fin: "costHash (Fin q) (Fin n) (Fin e) = Fin (spec_costHash n e)"
  by (simp add: costHash_def spec_costHash_def costs weights)

lemma costZip_zero: "costZip (Fin 0) e en = NaN"
  by (simp add: costZip_def costs)

lemma costHash_no_filter: "costHash q (Fin 0) e = e * CostKey + e * CostLookup"
  by (cases e) (simp_all add: costHash_def costs)

lemma Optimize_zero: "Optimize 0 N = (MatchHash, NaN)"
  by (simp add: Optimize_def float64_def Let_def costZip_zero)

lemma Optimize_tag: "fst (Optimize Q N) = MatchZip \<or> fst (Optimize Q N) = MatchHash"
  by (simp add: Optimize_def Let_def)

text \<open>
  For a positive query size every intermediate value is finite, and \<open>Optimize\<close> is the
  comparison of the two real closed forms.
\<close>

lemma Optimize_Fin:
  assumes "0 < Q"
  shows "Optimize Q N =
     (let q = real_of_int Q; n = real_of_int N; e = spec_expQ q; en = spec_expN q n e;
          z = spec_costZip q e en; h = spec_costHash n e
      in if z < h then (MatchZip, Fin z / Fin h) else (MatchHash, Fin h / Fin z))"
proof -
  have q: "0 < real_of_int Q" "real_of_int Q + 1 \<noteq> 0" using assms by simp_all
  show ?thesis
    unfolding Optimize_def float64_def Let_def expQueries_Fin expReads_Fin [OF q(2)]
      costZip_Fin [OF q(1)] costHash_Fin
    by simp
qed

subsection \<open>Bounds on the real closed forms\<close>

lemma spec_expQ_pos: "0 < q \<Longrightarrow> 0 < spec_expQ q"
  by (simp add: spec_expQ_def spec_M_def)

lemma spec_expQ_le: "spec_expQ q \<le> q"
proof -
  have "1 + (- q / 784931) \<le> exp (- q / 784931)" by (rule exp_ge_add_one_self)
  then show ?thesis by (simp add: spec_expQ_def spec_M_def field_simps)
qed

lemma spec_expQ_less_M: "spec_expQ q < 784931"
  by (simp add: spec_expQ_def spec_M_def)

lemma spec_expN_nonneg: "0 \<le> q \<Longrightarrow> 0 \<le> n \<Longrightarrow> 0 \<le> e \<Longrightarrow> 0 \<le> spec_expN q n e"
  by (simp add: spec_expN_def)

lemma spec_costZip_pos:
  assumes "1 \<le> q" "0 \<le> n"
  shows "0 < spec_costZip q (spec_expQ q) (spec_expN q n (spec_expQ q))"
proof -
  have e: "0 < spec_expQ q" using assms by (intro spec_expQ_pos) simp
  have en: "0 < spec_expN q n (spec_expQ q)"
    using assms e by (simp add: spec_expN_def)
  have l: "0 \<le> log 2 q" using assms by simp
  have "0 \<le> q * log 2 q * 130" using assms l by simp
  moreover have "0 < q * 3" using assms by simp
  ultimately show ?thesis using e en by (simp add: spec_costZip_def weights)
qed

lemma spec_costHash_pos:
  assumes "0 < q" "0 \<le> n"
  shows "0 < spec_costHash n (spec_expQ q)"
proof -
  have e: "0 < spec_expQ q" using assms by (intro spec_expQ_pos)
  have "0 \<le> n * 75" using assms by simp
  then show ?thesis using e by (simp add: spec_costHash_def weights)
qed

text \<open>
  The two selections of the specification's concrete check have wide margins: with one
  query against \<open>1000\<close> entries the Hash estimate is more than four times the Zip estimate,
  and with a million queries the Zip estimate is more than five times the Hash estimate.
\<close>

lemma small_query_margin:
  assumes "0 < e" "e \<le> 1"
  shows "4 * spec_costZip 1 e (spec_expN 1 1000 e) < spec_costHash 1000 e"
  using assms by (simp add: spec_costZip_def spec_costHash_def spec_expN_def weights)

lemma large_query_margin:
  assumes "0 < d" "d < 784931" "0 \<le> dn"
  shows "5 * spec_costHash 1000 d < spec_costZip 1000000 d dn"
proof -
  have l: "(1::real) \<le> log 2 1000000" by simp
  have lower: "133000000 \<le> 1000000 * 3 + 1000000 * L * 130 + (d + dn) * 1 + dn * 30"
    if "1 \<le> L" for L :: real
    using that assms by simp
  have z: "133000000 \<le> spec_costZip 1000000 d dn"
    unfolding spec_costZip_def weights by (rule lower) (rule l)
  have h: "5 * spec_costHash 1000 d < 133000000"
    using assms by (simp add: spec_costHash_def weights)
  show ?thesis using z h by simp
qed

lemma ratio_unit:
  assumes "0 < a" "0 < b" "a \<le> b"
  shows "Fin 0 < Fin a / Fin b \<and> Fin a / Fin b \<le> Fin 1"
  using assms by simp

subsection \<open>The claims about the cost model\<close>

text \<open>
  Claim C1, as amended. For all sizes \<open>Q\<close> and \<open>N\<close>, \<open>Optimize\<close> returns the tag
  \<open>MatchZip\<close> or \<open>MatchHash\<close> (never \<open>MatchBlock\<close>); and for every query size \<open>Q \<ge> 1\<close>
  and filter size \<open>N \<ge> 0\<close> the ratio it returns is strictly above \<open>0\<close> and at most \<open>1\<close>.
\<close>

theorem Optimize_range:
  "fst (Optimize Q N) \<in> {MatchZip, MatchHash} \<and>
   (1 \<le> Q \<longrightarrow> 0 \<le> N \<longrightarrow>
      Fin 0 < snd (Optimize Q N) \<and> snd (Optimize Q N) \<le> Fin 1)"
proof (intro conjI impI)
  show "fst (Optimize Q N) \<in> {MatchZip, MatchHash}"
    using Optimize_tag [of Q N] by auto
next
  assume Q: "1 \<le> Q" and N: "0 \<le> N"
  define z where "z = spec_costZip (real_of_int Q) (spec_expQ (real_of_int Q))
     (spec_expN (real_of_int Q) (real_of_int N) (spec_expQ (real_of_int Q)))"
  define h where "h = spec_costHash (real_of_int N) (spec_expQ (real_of_int Q))"
  have z: "0 < z" unfolding z_def using Q N by (intro spec_costZip_pos) simp_all
  have h: "0 < h" unfolding h_def using Q N by (intro spec_costHash_pos) simp_all
  have O: "Optimize Q N = (if z < h then (MatchZip, Fin z / Fin h) else (MatchHash, Fin h / Fin z))"
    using Q Optimize_Fin [of Q N] by (simp add: Let_def z_def h_def)
  show "Fin 0 < snd (Optimize Q N)"
  proof (cases "z < h")
    case True
    then show ?thesis using O ratio_unit [of z h] z h by simp
  next
    case False
    then show ?thesis using O ratio_unit [of h z] z h by simp
  qed
  show "snd (Optimize Q N) \<le> Fin 1"
  proof (cases "z < h")
    case True
    then show ?thesis using O ratio_unit [of z h] z h by simp
  next
    case False
    then show ?thesis using O ratio_unit [of h z] z h by simp
  qed
qed

theorem Optimize_range_witness:
  "(1::int) \<le> 1 \<and> (0::int) \<le> 1000 \<and> fst (Optimize 1 1000) \<in> {MatchZip, MatchHash} \<and>
   Fin 0 < snd (Optimize 1 1000) \<and> snd (Optimize 1 1000) \<le> Fin 1 \<and>
   fst (Optimize 0 1000) \<in> {MatchZip, MatchHash}"
  using Optimize_range [of 1 1000] Optimize_range [of 0 1000] by simp

text \<open>
  Claim C1 as stated fails at \<open>Q = 0\<close>: \<open>Log2 0\<close> is \<open>-Inf\<close> and \<open>0 * (-Inf)\<close> is NaN, so
  \<open>costZip\<close> is NaN, the comparison \<open>cZip < cHash\<close> is false, and the ratio
  \<open>cHash / cZip\<close> is NaN, which lies in no interval. No rounding takes part in this: a
  sum with a NaN term is NaN in IEEE-754 arithmetic, whatever the other terms are.
\<close>

theorem Optimize_range_counterexample:
  "Optimize 0 1000 = (MatchHash, NaN) \<and>
   \<not> (fst (Optimize 0 1000) \<in> {MatchZip, MatchHash} \<and>
       Fin 0 < snd (Optimize 0 1000) \<and> snd (Optimize 0 1000) \<le> Fin 1)"
  by (simp add: Optimize_zero)

text \<open>
  Claim C2, as amended. At \<open>Q = 0\<close> the estimate \<open>costZip\<close> is NaN whatever the two
  expectations are, and \<open>Optimize 0 N\<close> is \<open>(MatchHash, NaN)\<close> for every \<open>N\<close>: Zip is not
  selected. At \<open>N = 0\<close> the tag is still \<open>MatchZip\<close> or \<open>MatchHash\<close> for every \<open>Q\<close>, and
  \<open>costHash\<close> is the sum of its two query-side terms.
\<close>

theorem Optimize_boundaries:
  "costZip (Fin 0) expQ expN = NaN \<and>
   Optimize 0 N = (MatchHash, NaN) \<and>
   fst (Optimize Q 0) \<in> {MatchZip, MatchHash} \<and>
   costHash q (Fin 0) expQ = expQ * CostKey + expQ * CostLookup"
  using Optimize_tag [of Q 0] by (simp add: costZip_zero Optimize_zero costHash_no_filter)

text \<open>Claim C2 as stated fails: with an empty query, \<open>Optimize\<close> selects Hash, not Zip.\<close>

theorem Optimize_boundaries_counterexample:
  "fst (Optimize 0 5) = MatchHash \<and> fst (Optimize 0 5) \<noteq> MatchZip"
  by (simp add: Optimize_zero)

text \<open>
  Claim C4. \<open>Optimize\<close> returns \<open>(MatchZip, cZip / cHash)\<close> exactly when \<open>cZip < cHash\<close>,
  and \<open>(MatchHash, cHash / cZip)\<close> otherwise, for all arguments.
\<close>

theorem Optimize_selects_cheaper:
  "Optimize Q N =
     (if cZip Q N < cHash Q N then (MatchZip, cZip Q N / cHash Q N)
      else (MatchHash, cHash Q N / cZip Q N)) \<and>
   (fst (Optimize Q N) = MatchZip) = (cZip Q N < cHash Q N) \<and>
   (fst (Optimize Q N) = MatchHash) = (\<not> cZip Q N < cHash Q N)"
  by (simp add: Optimize_def cZip_def cHash_def Let_def)

text \<open>
  Claim C5, as amended. With the weights sort \<open>130\<close>, read \<open>30\<close>, insert \<open>45\<close>, lookup
  \<open>30\<close>, compare \<open>1\<close>, key \<open>3\<close>: for every \<open>Q > 0\<close> and all finite \<open>expQ\<close>, \<open>expN\<close>,
  \<open>costZip\<close> is the specification's closed form
  \<open>Q*keyWeight + Q*log2(Q)*sortWeight + (expQ + expN)*compareWeight + expN*readWeight\<close>;
  and for all finite \<open>Q\<close>, \<open>N\<close>, \<open>expQ\<close>, \<open>costHash\<close> is the closed form
  \<open>N*(insertWeight + readWeight) + expQ*keyWeight + expQ*lookupWeight\<close>, whose query-side
  terms are weighted by \<open>expQ\<close>; \<open>Q\<close> does not occur in it.
\<close>

theorem cost_closed_forms:
  "(0 < q \<longrightarrow> costZip (Fin q) (Fin e) (Fin en) = Fin (spec_costZip q e en)) \<and>
   costHash (Fin q) (Fin n) (Fin e) = Fin (spec_costHash n e) \<and>
   sortWeight = 130 \<and> readWeight = 30 \<and> insertWeight = 45 \<and> lookupWeight = 30 \<and>
   compareWeight = 1 \<and> keyWeight = 3"
  by (simp add: costZip_Fin costHash_Fin) (simp add: weights)

theorem cost_closed_forms_witness:
  "(0::real) < 2 \<and> costZip (Fin 2) (Fin 1) (Fin 1) = Fin 298 \<and>
   costHash (Fin 2) (Fin 4) (Fin 1) = Fin 333"
  using cost_closed_forms [of 2 1 1 4]
  by (simp add: spec_costZip_def spec_costHash_def weights)

text \<open>
  Claim C5 as stated, for all \<open>Q\<close>, fails at \<open>Q = 0\<close>: with both expectations \<open>1\<close> the
  closed form is \<open>0 + 0 + 2 + 30 = 32\<close> (its sorting term \<open>Q*log2(Q)*sortWeight\<close> vanishes,
  as the specification's edge policy has it), while \<open>costZip\<close> multiplies \<open>0\<close> by
  \<open>Log2 0 = -Inf\<close> and returns NaN.
\<close>

theorem cost_closed_forms_counterexample:
  "costZip (Fin 0) (Fin 1) (Fin 1) = NaN \<and> spec_costZip 0 1 1 = 32 \<and>
   costZip (Fin 0) (Fin 1) (Fin 1) \<noteq> Fin (spec_costZip 0 1 1)"
  by (simp add: costZip_zero spec_costZip_def weights)

text \<open>
  Claim C6. For \<open>Q \<ge> 0\<close> and \<open>N \<ge> 0\<close>, \<open>expQueries\<close> is \<open>M * (1 - exp (- Q / M))\<close> with
  \<open>M = 784931\<close> and \<open>expReads\<close> is \<open>((N + 1) / (Q + 1)) * expQ\<close>; the divisor \<open>Q + 1\<close> is
  positive, so the quotient is a finite number also when \<open>Q\<close> or \<open>N\<close> is zero.
\<close>

theorem expectation_closed_forms:
  assumes "0 \<le> q" "0 \<le> n"
  shows "expQueries (Fin q) = Fin (spec_expQ q) \<and>
         expReads (Fin q) (Fin n) (Fin e) = Fin (spec_expN q n e) \<and>
         expReads (Fin q) (Fin n) (expQueries (Fin q)) = Fin (spec_expN q n (spec_expQ q)) \<and>
         0 < q + 1 \<and> spec_M = 784931 \<and> M = Fin spec_M"
  using assms by (simp add: expQueries_Fin expReads_Fin spec_M_def M_def)

theorem expectation_closed_forms_witness:
  "(0::real) \<le> 0 \<and> expQueries (Fin 0) = Fin 0 \<and> expReads (Fin 0) (Fin 0) (Fin 7) = Fin 7"
  using expectation_closed_forms [of 0 0 7]
  by (simp add: spec_expQ_def spec_expN_def)

text \<open>
  Claim C7. With \<open>M = 784931\<close> and a filter of \<open>1000\<close> entries, one query selects Zip and
  a million queries select Hash.
\<close>

theorem concrete_selection:
  "M = Fin 784931 \<and> fst (Optimize 1 1000) = MatchZip \<and>
   fst (Optimize 1000000 1000) = MatchHash"
proof -
  define e where "e = spec_expQ 1"
  have e: "0 < e" "e \<le> 1"
    unfolding e_def using spec_expQ_pos [of 1] spec_expQ_le [of 1] by simp_all
  have "0 < spec_costZip 1 e (spec_expN 1 1000 e)"
    unfolding e_def using spec_costZip_pos [of 1 1000] by simp
  then have "spec_costZip 1 e (spec_expN 1 1000 e) < spec_costHash 1000 e"
    using small_query_margin [OF e] by simp
  then have small: "fst (Optimize 1 1000) = MatchZip"
    using Optimize_Fin [of 1 1000] by (simp add: Let_def e_def)
  define d where "d = spec_expQ 1000000"
  define dn where "dn = spec_expN 1000000 1000 d"
  have d: "0 < d" "d < 784931"
    unfolding d_def using spec_expQ_pos [of 1000000] spec_expQ_less_M [of 1000000] by simp_all
  have dn: "0 \<le> dn" unfolding dn_def using d by (intro spec_expN_nonneg) simp_all
  have "0 < spec_costHash 1000 d"
    unfolding d_def using spec_costHash_pos [of 1000000 1000] by simp
  then have "\<not> spec_costZip 1000000 d dn < spec_costHash 1000 d"
    using large_query_margin [OF d dn] by simp
  then have large: "fst (Optimize 1000000 1000) = MatchHash"
    using Optimize_Fin [of 1000000 1000] by (simp add: Let_def d_def dn_def)
  show ?thesis using small large by (simp add: M_def)
qed

section \<open>Properties of the two matchers\<close>

lemma mergeWalk_iff:
  "sorted fs \<Longrightarrow> sorted qs \<Longrightarrow> mergeWalk fs qs = (\<exists>q \<in> set qs. q \<in> set fs)"
proof (induction fs qs rule: mergeWalk.induct)
  case (1 qs)
  then show ?case by simp
next
  case (2 f fs)
  then show ?case by simp
next
  case (3 f fs q qs)
  show ?case
  proof (cases "f = q")
    case True
    then show ?thesis by auto
  next
    case False
    show ?thesis
    proof (cases "f < q")
      case True
      then have "f \<notin> set (q # qs)" using "3.prems"(2) by auto
      moreover have "mergeWalk fs (q # qs) = (\<exists>x \<in> set (q # qs). x \<in> set fs)"
        using "3.IH"(1) \<open>f \<noteq> q\<close> True "3.prems" by simp
      ultimately show ?thesis using \<open>f \<noteq> q\<close> True by auto
    next
      case nl: False
      then have "q < f" using \<open>f \<noteq> q\<close> by simp
      then have "q \<notin> set (f # fs)" using "3.prems"(1) by auto
      moreover have "mergeWalk (f # fs) qs = (\<exists>x \<in> set qs. x \<in> set (f # fs))"
        using "3.IH"(2) \<open>f \<noteq> q\<close> nl "3.prems" by simp
      ultimately show ?thesis using \<open>f \<noteq> q\<close> nl by auto
    qed
  qed
qed

lemma probe_iff: "probe s qs = (\<exists>q \<in> set qs. q \<in> s)"
  by (induction qs) auto

lemma fold_insert_set: "fold insert xs A = set xs \<union> A"
  by (induction xs arbitrary: A) auto

lemma HashMatcher_iff: "HashMatcher fs qs = (\<exists>q \<in> set qs. q \<in> set fs)"
  by (simp add: HashMatcher_def probe_iff fold_insert_set)

lemma MergeMatcher_iff: "sorted fs \<Longrightarrow> MergeMatcher fs qs = (\<exists>q \<in> set qs. q \<in> set fs)"
  by (simp add: MergeMatcher_def mergeWalk_iff)

text \<open>
  Claim C3. For every filter (its entries in ascending order, as the specification
  requires of a filter stream) and every query set, the Merge Matcher and the Hash Matcher
  give the same answer; in particular they give the same answer for every single query
  item, which is whether the item is among the filter's entries. Running the matcher that
  \<open>Optimize\<close> selects gives that answer too.
\<close>

theorem matchers_agree:
  assumes "sorted filter_entries"
  shows "MergeMatcher filter_entries queries = HashMatcher filter_entries queries \<and>
         MergeMatcher filter_entries [q] = HashMatcher filter_entries [q] \<and>
         HashMatcher filter_entries [q] = (q \<in> set filter_entries) \<and>
         selectAndMatch filter_entries queries = HashMatcher filter_entries queries"
  using assms by (simp add: MergeMatcher_iff HashMatcher_iff selectAndMatch_def)

theorem matchers_agree_witness:
  "sorted [1, 3, 5 :: 64 word] \<and> MergeMatcher [1, 3, 5] [4, 5, 2] = True \<and>
   HashMatcher [1, 3, 5] [4, 5, 2] = True \<and> MergeMatcher [1, 3, 5] [4] = False \<and>
   HashMatcher [1, 3, 5] [4] = False"
  using matchers_agree [of "[1, 3, 5]" "[4, 5, 2]" 4]
  by (simp add: HashMatcher_def)

section \<open>Properties of txsort\<close>

subsection \<open>The sorts write one backing array\<close>

lemma length_siftList [simp]: "length (siftList lt j xs) = length xs"
  by (induction j arbitrary: xs) (simp_all add: swapAt_def)

lemma input_fields [simp]:
  "Less (sortableInputSlice s) h i j =
     inputLess (txIns h (inArrays h s ! i)) (txIns h (inArrays h s ! j))"
  "Swap (sortableInputSlice s) h i j =
     h\<lparr>inArrays := (inArrays h)(s := swapAt (inArrays h s) i j)\<rparr>"
  "Len (sortableInputSlice s) h = length (inArrays h s)"
  by (simp_all add: sortableInputSlice_def)

lemma output_fields [simp]:
  "Less (sortableOutputSlice s) h i j =
     outputLess (txOuts h (outArrays h s ! i)) (txOuts h (outArrays h s ! j))"
  "Swap (sortableOutputSlice s) h i j =
     h\<lparr>outArrays := (outArrays h)(s := swapAt (outArrays h s) i j)\<rparr>"
  "Len (sortableOutputSlice s) h = length (outArrays h s)"
  by (simp_all add: sortableOutputSlice_def)

lemma sift_input:
  "sift (sortableInputSlice s) j h =
   h\<lparr>inArrays := (inArrays h)(s := siftList (\<lambda>p q. inputLess (txIns h p) (txIns h q)) j (inArrays h s))\<rparr>"
  by (induction j arbitrary: h) simp_all

lemma sift_output:
  "sift (sortableOutputSlice s) j h =
   h\<lparr>outArrays := (outArrays h)(s := siftList (\<lambda>p q. outputLess (txOuts h p) (txOuts h q)) j (outArrays h s))\<rparr>"
  by (induction j arbitrary: h) simp_all

lemma contextLess_ctxArrays_update [simp]:
  "contextLess (ctxArrays_update g h) = contextLess h"
  by (intro ext) (simp add: contextLess_def)

lemma context_fields [simp]:
  "Less (sortableOutputContextSlice s) h i j = contextLess h (ctxArrays h s ! i) (ctxArrays h s ! j)"
  "Swap (sortableOutputContextSlice s) h i j =
     h\<lparr>ctxArrays := (ctxArrays h)(s := swapAt (ctxArrays h s) i j)\<rparr>"
  "Len (sortableOutputContextSlice s) h = length (ctxArrays h s)"
  by (simp_all add: sortableOutputContextSlice_def)

lemma sift_context:
  "sift (sortableOutputContextSlice s) j h =
   h\<lparr>ctxArrays := (ctxArrays h)(s := siftList (contextLess h) j (ctxArrays h s))\<rparr>"
  by (induction j arbitrary: h) simp_all

lemma fold_sift_input:
  "fold (sift (sortableInputSlice s)) is h =
   h\<lparr>inArrays := (inArrays h)(s := fold (siftList (\<lambda>p q. inputLess (txIns h p) (txIns h q))) is (inArrays h s))\<rparr>"
  by (induction "is" arbitrary: h) (simp_all add: sift_input)

lemma fold_sift_output:
  "fold (sift (sortableOutputSlice s)) is h =
   h\<lparr>outArrays := (outArrays h)(s := fold (siftList (\<lambda>p q. outputLess (txOuts h p) (txOuts h q))) is (outArrays h s))\<rparr>"
  by (induction "is" arbitrary: h) (simp_all add: sift_output)

lemma fold_sift_context:
  "fold (sift (sortableOutputContextSlice s)) is h =
   h\<lparr>ctxArrays := (ctxArrays h)(s := fold (siftList (contextLess h)) is (ctxArrays h s))\<rparr>"
  by (induction "is" arbitrary: h) (simp_all add: sift_context)


lemma sort_Sort_input:
  "sort_Sort (sortableInputSlice s) h =
   h\<lparr>inArrays := (inArrays h)(s := sortList (\<lambda>p q. inputLess (txIns h p) (txIns h q)) (inArrays h s))\<rparr>"
  by (simp add: sort_Sort_def fold_sift_input sortList_def)

lemma sort_Sort_output:
  "sort_Sort (sortableOutputSlice s) h =
   h\<lparr>outArrays := (outArrays h)(s := sortList (\<lambda>p q. outputLess (txOuts h p) (txOuts h q)) (outArrays h s))\<rparr>"
  by (simp add: sort_Sort_def fold_sift_output sortList_def)

lemma sort_Sort_context:
  "sort_Sort (sortableOutputContextSlice s) h =
   h\<lparr>ctxArrays := (ctxArrays h)(s := sortList (contextLess h) (ctxArrays h s))\<rparr>"
  by (simp add: sort_Sort_def fold_sift_context sortList_def)

lemma unchangedBelow_refl [simp]: "unchangedBelow h h"
  by (simp add: unchangedBelow_def)

lemma copyTxIns_effect:
  assumes "copyTxIns h ps = (h', news)"
  shows "nextAddr h' = nextAddr h + length ps \<and> news = [nextAddr h..<nextAddr h + length ps] \<and>
         msgTxs h' = msgTxs h \<and> txOuts h' = txOuts h \<and> inArrays h' = inArrays h \<and>
         outArrays h' = outArrays h \<and> ctxArrays h' = ctxArrays h \<and>
         (\<forall>a<nextAddr h. txIns h' a = txIns h a)"
  using assms
proof (induction ps arbitrary: h h' news)
  case Nil
  then show ?case by simp
next
  case (Cons p ps)
  let ?h1 = "h\<lparr>txIns := (txIns h)(nextAddr h := txIns h p), nextAddr := nextAddr h + 1\<rparr>"
  obtain h2 ns where r: "copyTxIns ?h1 ps = (h2, ns)" by (cases "copyTxIns ?h1 ps")
  from Cons.prems r have e: "h' = h2" "news = nextAddr h # ns" by (simp_all add: Let_def)
  have u: "[nextAddr h..<nextAddr h + Suc (length ps)] = nextAddr h # [Suc (nextAddr h)..<nextAddr h + Suc (length ps)]"
    by (rule upt_conv_Cons) simp
  from Cons.IH [OF r] show ?case unfolding e using u by auto
qed

lemma copyTxOuts_effect:
  assumes "copyTxOuts h ps = (h', news)"
  shows "nextAddr h' = nextAddr h + length ps \<and> news = [nextAddr h..<nextAddr h + length ps] \<and>
         msgTxs h' = msgTxs h \<and> txIns h' = txIns h \<and> inArrays h' = inArrays h \<and>
         outArrays h' = outArrays h \<and> ctxArrays h' = ctxArrays h \<and>
         (\<forall>a<nextAddr h. txOuts h' a = txOuts h a)"
  using assms
proof (induction ps arbitrary: h h' news)
  case Nil
  then show ?case by simp
next
  case (Cons p ps)
  let ?h1 = "h\<lparr>txOuts := (txOuts h)(nextAddr h := txOuts h p), nextAddr := nextAddr h + 1\<rparr>"
  obtain h2 ns where r: "copyTxOuts ?h1 ps = (h2, ns)" by (cases "copyTxOuts ?h1 ps")
  from Cons.prems r have e: "h' = h2" "news = nextAddr h # ns" by (simp_all add: Let_def)
  have u: "[nextAddr h..<nextAddr h + Suc (length ps)] = nextAddr h # [Suc (nextAddr h)..<nextAddr h + Suc (length ps)]"
    by (rule upt_conv_Cons) simp
  from Cons.IH [OF r] show ?case unfolding e using u by auto
qed

lemma copyTxOuts_values:
  assumes "copyTxOuts h ps = (h', news)" "list_all (\<lambda>p. p < nextAddr h) ps"
  shows "map (txOuts h') news = map (txOuts h) ps"
  using assms
proof (induction ps arbitrary: h h' news)
  case Nil
  then show ?case by simp
next
  case (Cons p ps)
  let ?h1 = "h\<lparr>txOuts := (txOuts h)(nextAddr h := txOuts h p), nextAddr := nextAddr h + 1\<rparr>"
  obtain h2 ns where r: "copyTxOuts ?h1 ps = (h2, ns)" by (cases "copyTxOuts ?h1 ps")
  from Cons.prems r have e: "h' = h2" "news = nextAddr h # ns" by (simp_all add: Let_def)
  have a: "list_all (\<lambda>p. p < nextAddr ?h1) ps" using Cons.prems(2) by (auto simp: list_all_iff)
  have m: "map (txOuts h2) ns = map (txOuts ?h1) ps" by (rule Cons.IH [OF r a])
  have k: "txOuts h2 (nextAddr h) = txOuts h p" using copyTxOuts_effect [OF r] by simp
  have "map (txOuts ?h1) ps = map (txOuts h) ps"
    using Cons.prems(2) by (auto simp: list_all_iff)
  then show ?case unfolding e using m k by simp
qed


lemma copyTxIns_values:
  assumes "copyTxIns h ps = (h', news)" "list_all (\<lambda>p. p < nextAddr h) ps"
  shows "map (txIns h') news = map (txIns h) ps"
  using assms
proof (induction ps arbitrary: h h' news)
  case Nil
  then show ?case by simp
next
  case (Cons p ps)
  let ?h1 = "h\<lparr>txIns := (txIns h)(nextAddr h := txIns h p), nextAddr := nextAddr h + 1\<rparr>"
  obtain h2 ns where r: "copyTxIns ?h1 ps = (h2, ns)" by (cases "copyTxIns ?h1 ps")
  from Cons.prems r have e: "h' = h2" "news = nextAddr h # ns" by (simp_all add: Let_def)
  have a: "list_all (\<lambda>p. p < nextAddr ?h1) ps" using Cons.prems(2) by (auto simp: list_all_iff)
  have m: "map (txIns h2) ns = map (txIns ?h1) ps" by (rule Cons.IH [OF r a])
  have k: "txIns h2 (nextAddr h) = txIns h p" using copyTxIns_effect [OF r] by simp
  have "map (txIns ?h1) ps = map (txIns h) ps"
    using Cons.prems(2) by (auto simp: list_all_iff)
  then show ?case unfolding e using m k by simp
qed

lemma Copy_effect:
  assumes "Copy h msg = (h', t)"
  shows "unchangedBelow h h' \<and> nextAddr h \<le> t \<and> t < nextAddr h' \<and>
         nextAddr h \<le> TxIn (msgTxs h' t) \<and> TxIn (msgTxs h' t) < nextAddr h' \<and>
         nextAddr h \<le> TxOut (msgTxs h' t) \<and> TxOut (msgTxs h' t) < nextAddr h'"
proof -
  obtain h1 newIns where i: "copyTxIns h (inArrays h (TxIn (msgTxs h msg))) = (h1, newIns)"
    by (cases "copyTxIns h (inArrays h (TxIn (msgTxs h msg)))")
  obtain h2 newOuts where
    o: "copyTxOuts h1 (outArrays h1 (TxOut (msgTxs h1 msg))) = (h2, newOuts)"
    by (cases "copyTxOuts h1 (outArrays h1 (TxOut (msgTxs h1 msg)))")
  note ei = copyTxIns_effect [OF i] and eo = copyTxOuts_effect [OF o]
  have h': "h' = h2\<lparr>inArrays := (inArrays h2)(nextAddr h2 := newIns),
              outArrays := (outArrays h2)(nextAddr h2 + 1 := newOuts),
              msgTxs := (msgTxs h2)(nextAddr h2 + 2 :=
                \<lparr>Version = Version (msgTxs h2 msg), TxIn = nextAddr h2, TxOut = nextAddr h2 + 1,
                 LockTime = LockTime (msgTxs h2 msg)\<rparr>),
              nextAddr := nextAddr h2 + 3\<rparr>"
    and t: "t = nextAddr h2 + 2"
    using assms i o by (auto simp: Copy_def Let_def)
  have le: "nextAddr h \<le> nextAddr h2" using ei eo by simp
  show ?thesis unfolding h' t using ei eo le by (auto simp: unchangedBelow_def)
qed

lemma Copy_outputs:
  assumes "Copy h msg = (h', t)" "validTx h msg"
  shows "map (txOuts h') (outArrays h' (TxOut (msgTxs h' t))) =
         map (txOuts h) (outArrays h (TxOut (msgTxs h msg)))"
proof -
  obtain h1 newIns where i: "copyTxIns h (inArrays h (TxIn (msgTxs h msg))) = (h1, newIns)"
    by (cases "copyTxIns h (inArrays h (TxIn (msgTxs h msg)))")
  obtain h2 newOuts where
    o: "copyTxOuts h1 (outArrays h1 (TxOut (msgTxs h1 msg))) = (h2, newOuts)"
    by (cases "copyTxOuts h1 (outArrays h1 (TxOut (msgTxs h1 msg)))")
  note ei = copyTxIns_effect [OF i] and eo = copyTxOuts_effect [OF o]
  have h': "h' = h2\<lparr>inArrays := (inArrays h2)(nextAddr h2 := newIns),
              outArrays := (outArrays h2)(nextAddr h2 + 1 := newOuts),
              msgTxs := (msgTxs h2)(nextAddr h2 + 2 :=
                \<lparr>Version = Version (msgTxs h2 msg), TxIn = nextAddr h2, TxOut = nextAddr h2 + 1,
                 LockTime = LockTime (msgTxs h2 msg)\<rparr>),
              nextAddr := nextAddr h2 + 3\<rparr>"
    and t: "t = nextAddr h2 + 2"
    using assms(1) i o by (auto simp: Copy_def Let_def)
  have same: "outArrays h1 (TxOut (msgTxs h1 msg)) = outArrays h (TxOut (msgTxs h msg))"
    using ei by simp
  have "list_all (\<lambda>p. p < nextAddr h1) (outArrays h1 (TxOut (msgTxs h1 msg)))"
    using assms(2) ei unfolding same by (auto simp: validTx_def list_all_iff)
  from copyTxOuts_values [OF o this]
  have "map (txOuts h2) newOuts = map (txOuts h1) (outArrays h (TxOut (msgTxs h msg)))"
    unfolding same .
  then show ?thesis unfolding h' t using ei by simp
qed

text \<open>
  \<open>Sort\<close> writes only what \<open>Copy\<close> has allocated: every object and array of the heap it
  was called in is unchanged, and the transaction it returns is new.
\<close>

lemma Sort_frame:
  assumes "Sort h tx = (h', t)"
  shows "unchangedBelow h h' \<and> nextAddr h \<le> t"
proof -
  obtain h1 t1 where c: "Copy h tx = (h1, t1)" by (cases "Copy h tx")
  note e = Copy_effect [OF c]
  have "h' = sort_Sort (sortableOutputSlice (TxOut (msgTxs h1 t1)))
               (sort_Sort (sortableInputSlice (TxIn (msgTxs h1 t1))) h1)"
    and "t = t1"
    using assms c by (auto simp: Sort_def Let_def sort_Sort_input)
  then show ?thesis using e
    by (auto simp: sort_Sort_input sort_Sort_output unchangedBelow_def)
qed


lemma makeSortableOutputContextSlice_panics:
  "isl (makeSortableOutputContextSlice h txouts ctxts) =
   (length (outArrays h txouts) \<noteq> length ctxts)"
  by (simp add: makeSortableOutputContextSlice_def Let_def)

lemma makeSortableOutputContextSlice_pairs:
  assumes "length (outArrays h txouts) = length ctxts"
  shows "\<exists>h' s. makeSortableOutputContextSlice h txouts ctxts = Inr (h', s) \<and>
           length (ctxArrays h' s) = length ctxts \<and>
           (\<forall>i<length ctxts.
              ctxArrays h' s ! i = \<lparr>TxOutPtr = outArrays h txouts ! i, Context = ctxts ! i\<rparr>)"
  using assms by (simp add: makeSortableOutputContextSlice_def Let_def)

lemma InPlaceContextualSort_panics:
  "isl (InPlaceContextualSort h tx ctxts) =
   (length (outArrays h (TxOut (msgTxs h tx))) \<noteq> length ctxts)"
  by (simp add: InPlaceContextualSort_def Let_def sort_Sort_input
      makeSortableOutputContextSlice_def split: sum.splits)

lemma IsContextualSorted_panics:
  "isl (IsContextualSorted h tx ctxts) =
   (sort_IsSorted (sortableInputSlice (TxIn (msgTxs h tx))) h \<and>
    length (outArrays h (TxOut (msgTxs h tx))) \<noteq> length ctxts)"
  by (simp add: IsContextualSorted_def makeSortableOutputContextSlice_def Let_def)

lemma ContextualSort_panics:
  assumes "validTx h tx"
  shows "isl (ContextualSort h tx ctxts) =
         (length (outArrays h (TxOut (msgTxs h tx))) \<noteq> length ctxts)"
proof -
  obtain h1 t1 where c: "Copy h tx = (h1, t1)" by (cases "Copy h tx")
  have e: "unchangedBelow h h1" using Copy_effect [OF c] by simp
  have m: "msgTxs h1 tx = msgTxs h tx"
    and o: "outArrays h1 (TxOut (msgTxs h tx)) = outArrays h (TxOut (msgTxs h tx))"
    using e assms by (simp_all add: unchangedBelow_def validTx_def)
  show ?thesis
    using c m o
    by (simp add: ContextualSort_def Let_def sort_Sort_input makeSortableOutputContextSlice_def
        split: sum.splits)
qed

text \<open>
  \<open>ContextualSort\<close> leaves the heap it was called in unchanged too, and returns a new
  transaction; but the outputs of that transaction are those of the argument in their
  original order, whatever the contexts are: the slice that was sorted is the temporary
  one.
\<close>

lemma ContextualSort_effect:
  assumes "validTx h tx" "ContextualSort h tx ctxts = Inr (h', t)"
  shows "unchangedBelow h h' \<and> nextAddr h \<le> t \<and>
         map (txOuts h') (outArrays h' (TxOut (msgTxs h' t))) =
         map (txOuts h) (outArrays h (TxOut (msgTxs h tx)))"
proof -
  obtain h1 t1 where c: "Copy h tx = (h1, t1)" by (cases "Copy h tx")
  note e = Copy_effect [OF c]
  define h2 where "h2 = sort_Sort (sortableInputSlice (TxIn (msgTxs h1 t1))) h1"
  have h2: "h2 = h1\<lparr>inArrays := (inArrays h1)(TxIn (msgTxs h1 t1) :=
       sortList (\<lambda>p q. inputLess (txIns h1 p) (txIns h1 q)) (inArrays h1 (TxIn (msgTxs h1 t1))))\<rparr>"
    by (simp add: h2_def sort_Sort_input)
  obtain h3 s where
    mk: "makeSortableOutputContextSlice h2 (TxOut (msgTxs h2 tx)) ctxts = Inr (h3, s)"
    and r: "h' = sort_Sort (sortableOutputContextSlice s) h3" "t = t1"
    using assms(2) c by (auto simp: ContextualSort_def Let_def h2_def split: sum.splits)
  define cs where "cs = map (\<lambda>i. \<lparr>TxOutPtr = outArrays h2 (TxOut (msgTxs h2 tx)) ! i,
      Context = ctxts ! i\<rparr>) [0..<length (outArrays h2 (TxOut (msgTxs h2 tx)))]"
  have "h3 = h2\<lparr>ctxArrays := (ctxArrays h2)(nextAddr h2 := cs), nextAddr := nextAddr h2 + 1\<rparr> \<and> s = nextAddr h2"
    using mk unfolding makeSortableOutputContextSlice_def Let_def cs_def
    by (auto split: if_splits)
  then have h3': "h3 = h2\<lparr>ctxArrays := (ctxArrays h2)(nextAddr h2 := cs), nextAddr := nextAddr h2 + 1\<rparr>"
    and s: "s = nextAddr h2"
    by blast+
  have f2: "unchangedBelow h h2"
    using e unfolding h2 by (auto simp: unchangedBelow_def)
  define xs where "xs = sortList (contextLess h3) cs"
  have h': "h' = h2\<lparr>ctxArrays := (ctxArrays h2)(nextAddr h2 := xs), nextAddr := nextAddr h2 + 1\<rparr>"
    unfolding r sort_Sort_context xs_def s by (simp add: h3')
  have frame: "unchangedBelow h h'"
    using f2 unfolding h' by (auto simp: unchangedBelow_def)
  have outs: "map (txOuts h') (outArrays h' (TxOut (msgTxs h' t))) =
              map (txOuts h1) (outArrays h1 (TxOut (msgTxs h1 t1)))"
    unfolding h' r(2) by (simp add: h2)
  show ?thesis using frame outs e Copy_outputs [OF c assms(1)] r by simp
qed

subsection \<open>The insertion sort orders and permutes\<close>

lemma length_bubble [simp]: "length (bubble lt x ys) = Suc (length ys)"
  by (induction ys) simp_all

lemma mset_bubble [simp]: "mset (bubble lt x ys) = add_mset x (mset ys)"
  by (induction ys) simp_all

lemma successively_bubble:
  assumes "\<And>a b. lt a b \<Longrightarrow> \<not> lt b a" "successively (\<lambda>a b. \<not> lt a b) ys"
  shows "successively (\<lambda>a b. \<not> lt a b) (bubble lt x ys)"
  using assms(2)
proof (induction ys)
  case Nil
  then show ?case by simp
next
  case (Cons y ys)
  show ?case
  proof (cases "lt x y")
    case False
    then show ?thesis using Cons.prems by simp
  next
    case True
    have "successively (\<lambda>a b. \<not> lt a b) ys"
      using Cons.prems by (cases ys) simp_all
    then have s: "successively (\<lambda>a b. \<not> lt a b) (bubble lt x ys)"
      by (rule Cons.IH)
    have "\<not> lt y (hd (bubble lt x ys))"
      using Cons.prems True assms(1) by (cases ys) (auto)
    then show ?thesis using True s by (simp add: successively_Cons)
  qed
qed

lemma swapAt_adjacent:
  assumes "Suc j < length xs"
  shows "swapAt xs (Suc j) j = take j xs @ xs ! Suc j # xs ! j # drop (Suc (Suc j)) xs"
proof -
  have "xs = take j xs @ xs ! j # xs ! Suc j # drop (Suc (Suc j)) xs"
    using assms by (metis Cons_nth_drop_Suc Suc_lessD append_take_drop_id)
  then obtain a b c where x: "xs = a @ xs ! j # xs ! Suc j # c" "length a = j"
    "a = take j xs" "c = drop (Suc (Suc j)) xs"
    using assms by (metis Suc_lessD length_take less_imp_le_nat min.absorb2)
  have "swapAt (a @ p # q # c) (Suc (length a)) (length a) = a @ q # p # c" for p q
    by (simp add: swapAt_def nth_append list_update_append)
  from this [of "xs ! j" "xs ! Suc j"] show ?thesis using x by simp
qed

lemma siftList_bubble:
  assumes "j < length xs"
  shows "siftList lt j xs = rev (bubble lt (xs ! j) (rev (take j xs))) @ drop (Suc j) xs"
  using assms
proof (induction j arbitrary: xs)
  case 0
  then show ?case by (cases xs) simp_all
next
  case (Suc j)
  have t: "take (Suc j) xs = take j xs @ [xs ! j]"
    using Suc.prems by (simp add: take_Suc_conv_app_nth)
  show ?case
  proof (cases "lt (xs ! Suc j) (xs ! j)")
    case True
    let ?ys = "swapAt xs (Suc j) j"
    have ys: "?ys = take j xs @ xs ! Suc j # xs ! j # drop (Suc (Suc j)) xs"
      by (rule swapAt_adjacent [OF Suc.prems])
    have l: "j < length ?ys" using Suc.prems by (simp add: swapAt_def)
    have lj: "length (take j xs) = j" using Suc.prems by simp
    have a: "take j ?ys = take j xs" unfolding ys using lj by simp
    have b: "?ys ! j = xs ! Suc j" unfolding ys using lj by (simp add: nth_append)
    have c: "drop (Suc j) ?ys = xs ! j # drop (Suc (Suc j)) xs" unfolding ys using lj by simp
    show ?thesis using True Suc.IH [OF l] by (simp add: a b c t)
  next
    case False
    have "xs = take j xs @ xs ! j # xs ! Suc j # drop (Suc (Suc j)) xs"
      using Suc.prems by (metis Cons_nth_drop_Suc Suc_lessD append_take_drop_id)
    then show ?thesis using False by (simp add: t)
  qed
qed

lemma length_insertAll [simp]: "length (insertAll lt xs) = length xs"
  by (induction xs rule: rev_induct) (simp_all add: insertAll_def)

lemma mset_insertAll [simp]: "mset (insertAll lt xs) = mset xs"
  by (induction xs rule: rev_induct) (simp_all add: insertAll_def)

lemma successively_insertAll:
  assumes "\<And>a b. lt a b \<Longrightarrow> \<not> lt b a"
  shows "successively (\<lambda>a b. \<not> lt a b) (insertAll lt xs)"
proof (induction xs rule: rev_induct)
  case Nil
  then show ?case by (simp add: insertAll_def)
next
  case (snoc x xs)
  then show ?case using successively_bubble [of lt "insertAll lt xs" x] assms
    by (simp add: insertAll_def)
qed

lemma fold_siftList:
  assumes "k < length xs"
  shows "fold (siftList lt) [1..<Suc k] xs = rev (insertAll lt (take (Suc k) xs)) @ drop (Suc k) xs"
  using assms
proof (induction k)
  case 0
  then show ?case by (cases xs) (simp_all add: insertAll_def)
next
  case (Suc k)
  let ?P = "rev (insertAll lt (take (Suc k) xs))"
  let ?zs = "?P @ drop (Suc k) xs"
  have IH: "fold (siftList lt) [1..<Suc k] xs = ?zs" using Suc by simp
  have lP: "length ?P = Suc k" using Suc.prems by simp
  have lz: "Suc k < length ?zs" using Suc.prems by simp
  have a: "take (Suc k) ?zs = ?P" using lP by simp
  have b: "?zs ! Suc k = xs ! Suc k" using lP Suc.prems by (simp add: nth_append)
  have c: "drop (Suc (Suc k)) ?zs = drop (Suc (Suc k)) xs" using lP by simp
  have t: "take (Suc (Suc k)) xs = take (Suc k) xs @ [xs ! Suc k]"
    using Suc.prems by (simp add: take_Suc_conv_app_nth)
  have "fold (siftList lt) [1..<Suc (Suc k)] xs = siftList lt (Suc k) ?zs"
    using IH by simp
  also have "\<dots> = rev (bubble lt (xs ! Suc k) (insertAll lt (take (Suc k) xs)))
                   @ drop (Suc (Suc k)) xs"
    unfolding siftList_bubble [OF lz] a b c by simp
  also have "\<dots> = rev (insertAll lt (take (Suc (Suc k)) xs)) @ drop (Suc (Suc k)) xs"
    unfolding t by (simp add: insertAll_def)
  finally show ?case .
qed

lemma sortList_insertAll: "sortList lt xs = rev (insertAll lt xs)"
proof (cases xs)
  case Nil
  then show ?thesis by (simp add: sortList_def insertAll_def)
next
  case (Cons x ys)
  then have "length xs = Suc (length ys)" by simp
  then show ?thesis
    using fold_siftList [of "length ys" xs lt] by (simp add: sortList_def)
qed

lemma mset_sortList [simp]: "mset (sortList lt xs) = mset xs"
  by (simp add: sortList_insertAll)

lemma length_sortList [simp]: "length (sortList lt xs) = length xs"
  by (simp add: sortList_insertAll)

lemma successively_sortList:
  assumes "\<And>a b. lt a b \<Longrightarrow> \<not> lt b a"
  shows "successively (\<lambda>a b. \<not> lt b a) (sortList lt xs)"
  using successively_insertAll [of lt xs] assms by (simp add: sortList_insertAll)

subsection \<open>Sort and ContextualSort\<close>

lemma bytes_Compare_antisym: "bytes_Compare b a = - bytes_Compare a b"
  by (induction a b rule: bytes_Compare.induct) auto

lemma inputLess_asym: "inputLess a b \<Longrightarrow> \<not> inputLess b a"
  using bytes_Compare_antisym [of "reverseHash (Hash (PreviousOutPoint b))"
      "reverseHash (Hash (PreviousOutPoint a))"]
  by (auto simp: inputLess_def Let_def split: if_splits)

lemma outputLess_asym: "outputLess a b \<Longrightarrow> \<not> outputLess b a"
  using bytes_Compare_antisym [of "PkScript b" "PkScript a"]
  by (auto simp: outputLess_def split: if_splits)

lemma list_all_adjacent:
  "list_all (\<lambda>i. P i (i - 1)) (rev [1..<n]) = (\<forall>i. Suc i < n \<longrightarrow> P (Suc i) i)"
proof -
  have "(\<forall>i\<in>{1..<n}. P i (i - 1)) = (\<forall>i. Suc i < n \<longrightarrow> P (Suc i) i)"
  proof
    assume a: "\<forall>i\<in>{1..<n}. P i (i - 1)"
    show "\<forall>i. Suc i < n \<longrightarrow> P (Suc i) i"
    proof (intro allI impI)
      fix i assume "Suc i < n"
      then have "Suc i \<in> {1..<n}" by simp
      with a have "P (Suc i) (Suc i - 1)" by blast
      then show "P (Suc i) i" by simp
    qed
  next
    assume a: "\<forall>i. Suc i < n \<longrightarrow> P (Suc i) i"
    show "\<forall>i\<in>{1..<n}. P i (i - 1)"
    proof
      fix i assume "i \<in> {1..<n}"
      then obtain k where "i = Suc k" "Suc k < n" by (cases i) auto
      with a show "P i (i - 1)" by simp
    qed
  qed
  then show ?thesis by (simp add: list_all_iff)
qed

lemma sort_IsSorted_input:
  "sort_IsSorted (sortableInputSlice s) h =
   successively (\<lambda>p q. \<not> inputLess (txIns h q) (txIns h p)) (inArrays h s)"
  using list_all_adjacent [of "\<lambda>i j. \<not> inputLess (txIns h (inArrays h s ! i))
      (txIns h (inArrays h s ! j))" "length (inArrays h s)"]
  by (simp add: sort_IsSorted_def successively_conv_nth)

lemma sort_IsSorted_output:
  "sort_IsSorted (sortableOutputSlice s) h =
   successively (\<lambda>p q. \<not> outputLess (txOuts h q) (txOuts h p)) (outArrays h s)"
  using list_all_adjacent [of "\<lambda>i j. \<not> outputLess (txOuts h (outArrays h s ! i))
      (txOuts h (outArrays h s ! j))" "length (outArrays h s)"]
  by (simp add: sort_IsSorted_def successively_conv_nth)

lemma Copy_inputs:
  assumes "Copy h msg = (h', t)" "validTx h msg"
  shows "map (txIns h') (inArrays h' (TxIn (msgTxs h' t))) =
         map (txIns h) (inArrays h (TxIn (msgTxs h msg))) \<and>
         Version (msgTxs h' t) = Version (msgTxs h msg) \<and>
         LockTime (msgTxs h' t) = LockTime (msgTxs h msg)"
proof -
  obtain h1 newIns where i: "copyTxIns h (inArrays h (TxIn (msgTxs h msg))) = (h1, newIns)"
    by (cases "copyTxIns h (inArrays h (TxIn (msgTxs h msg)))")
  obtain h2 newOuts where
    o: "copyTxOuts h1 (outArrays h1 (TxOut (msgTxs h1 msg))) = (h2, newOuts)"
    by (cases "copyTxOuts h1 (outArrays h1 (TxOut (msgTxs h1 msg)))")
  note ei = copyTxIns_effect [OF i] and eo = copyTxOuts_effect [OF o]
  have h': "h' = h2\<lparr>inArrays := (inArrays h2)(nextAddr h2 := newIns),
              outArrays := (outArrays h2)(nextAddr h2 + 1 := newOuts),
              msgTxs := (msgTxs h2)(nextAddr h2 + 2 :=
                \<lparr>Version = Version (msgTxs h2 msg), TxIn = nextAddr h2, TxOut = nextAddr h2 + 1,
                 LockTime = LockTime (msgTxs h2 msg)\<rparr>),
              nextAddr := nextAddr h2 + 3\<rparr>"
    and t: "t = nextAddr h2 + 2"
    using assms(1) i o by (auto simp: Copy_def Let_def)
  have "list_all (\<lambda>p. p < nextAddr h) (inArrays h (TxIn (msgTxs h msg)))"
    using assms(2) by (simp add: validTx_def)
  from copyTxIns_values [OF i this]
  have "map (txIns h1) newIns = map (txIns h) (inArrays h (TxIn (msgTxs h msg)))" .
  then show ?thesis unfolding h' t using ei eo by simp
qed

text \<open>
  \<open>Sort\<close> returns a new transaction that \<open>IsSorted\<close> accepts, whose inputs and outputs
  are those of the argument up to their order, with the same version and lock time, and
  leaves the heap it was called in unchanged.
\<close>

lemma Sort_correct:
  assumes "validTx h tx" "Sort h tx = (h', t)"
  shows "unchangedBelow h h' \<and> nextAddr h \<le> t \<and> IsSorted h' t \<and>
         mset (map (txIns h') (inArrays h' (TxIn (msgTxs h' t)))) =
           mset (map (txIns h) (inArrays h (TxIn (msgTxs h tx)))) \<and>
         mset (map (txOuts h') (outArrays h' (TxOut (msgTxs h' t)))) =
           mset (map (txOuts h) (outArrays h (TxOut (msgTxs h tx)))) \<and>
         Version (msgTxs h' t) = Version (msgTxs h tx) \<and>
         LockTime (msgTxs h' t) = LockTime (msgTxs h tx)"
proof -
  obtain h1 t1 where c: "Copy h tx = (h1, t1)" by (cases "Copy h tx")
  define ltIn where "ltIn = (\<lambda>p q. inputLess (txIns h1 p) (txIns h1 q))"
  define ltOut where "ltOut = (\<lambda>p q. outputLess (txOuts h1 p) (txOuts h1 q))"
  define ins where "ins = inArrays h1 (TxIn (msgTxs h1 t1))"
  define outs where "outs = outArrays h1 (TxOut (msgTxs h1 t1))"
  have r: "h' = h1\<lparr>inArrays := (inArrays h1)(TxIn (msgTxs h1 t1) := sortList ltIn ins),
                   outArrays := (outArrays h1)(TxOut (msgTxs h1 t1) := sortList ltOut outs)\<rparr>"
    "t = t1"
    using assms(2) c
    by (auto simp: Sort_def Let_def sort_Sort_input sort_Sort_output ltIn_def ltOut_def
        ins_def outs_def)
  have sIn: "successively (\<lambda>p q. \<not> ltIn q p) (sortList ltIn ins)"
    by (rule successively_sortList) (auto simp: ltIn_def dest: inputLess_asym)
  have sOut: "successively (\<lambda>p q. \<not> ltOut q p) (sortList ltOut outs)"
    by (rule successively_sortList) (auto simp: ltOut_def dest: outputLess_asym)
  have sorted: "IsSorted h' t"
    using sIn sOut unfolding IsSorted_def sort_IsSorted_input sort_IsSorted_output r
    by (simp add: ltIn_def ltOut_def)
  have mIn: "mset (map (txIns h') (inArrays h' (TxIn (msgTxs h' t)))) = mset (map (txIns h1) ins)"
    unfolding r by simp
  have mOut: "mset (map (txOuts h') (outArrays h' (TxOut (msgTxs h' t)))) =
              mset (map (txOuts h1) outs)"
    unfolding r by simp
  have f: "Version (msgTxs h' t) = Version (msgTxs h1 t1)"
    "LockTime (msgTxs h' t) = LockTime (msgTxs h1 t1)"
    unfolding r by simp_all
  show ?thesis
    using Sort_frame [OF assms(2)] sorted mIn mOut f Copy_inputs [OF c assms(1)]
      Copy_outputs [OF c assms(1)]
    by (simp add: ins_def outs_def)
qed

text \<open>
  \<open>InPlaceContextualSort\<close> never moves an output either: it sorts the zipped temporary
  slice and leaves the transaction's \<^verbatim>\<open>TxOut\<close> slice as it was.
\<close>

lemma InPlaceContextualSort_outputs:
  assumes "InPlaceContextualSort h tx ctxts = Inr h'"
  shows "outArrays h' = outArrays h \<and> txOuts h' = txOuts h \<and> msgTxs h' = msgTxs h"
  using assms
  by (auto simp: InPlaceContextualSort_def Let_def sort_Sort_input sort_Sort_context
      makeSortableOutputContextSlice_def split: if_splits)

subsection \<open>The claims about txsort\<close>

text \<open>
  Claim C9 fails on the code for \<open>ContextualSort\<close>. On the example transaction, whose
  outputs have the values \<open>2, 1\<close>, \<open>ContextualSort\<close> with two empty contexts returns a
  transaction whose outputs still have the values \<open>2, 1\<close> and which
  \<open>IsContextualSorted\<close> rejects, while \<open>Sort\<close> returns one with the values \<open>1, 2\<close> which
  \<open>IsSorted\<close> accepts. Both leave the outputs of the argument as they were.
\<close>

theorem ContextualSort_outputs_not_sorted:
  "(case ContextualSort exampleHeap 7 [[], []] of
      Inl p \<Rightarrow> None
    | Inr (h, t) \<Rightarrow> Some (outputValues h t, IsContextualSorted h t [[], []], outputValues h 7)) =
     Some ([2, 1], Inr False, [2, 1]) \<and>
   (case Sort exampleHeap 7 of (h, t) \<Rightarrow> (outputValues h t, IsSorted h t, outputValues h 7)) =
     ([1, 2], True, [2, 1])"
  by code_simp

text \<open>
  Claim C10, as amended. For a transaction whose parts are allocated:
  \<open>makeSortableOutputContextSlice\<close>, \<open>ContextualSort\<close> and \<open>InPlaceContextualSort\<close>
  panic if and only if the number of outputs differs from the number of contexts;
  \<open>IsContextualSorted\<close> panics if and only if the inputs are sorted and the two numbers
  differ (with unsorted inputs it returns \<open>false\<close> before it looks at the contexts); and
  when the two numbers are equal, \<open>makeSortableOutputContextSlice\<close> returns a slice of
  that length whose element \<open>i\<close> pairs output \<open>i\<close> with context \<open>i\<close>.
\<close>

theorem contextual_sort_panics:
  assumes "validTx h tx"
  shows "isl (makeSortableOutputContextSlice h txouts ctxts) =
           (length (outArrays h txouts) \<noteq> length ctxts) \<and>
         isl (ContextualSort h tx ctxts) =
           (length (outArrays h (TxOut (msgTxs h tx))) \<noteq> length ctxts) \<and>
         isl (InPlaceContextualSort h tx ctxts) =
           (length (outArrays h (TxOut (msgTxs h tx))) \<noteq> length ctxts) \<and>
         isl (IsContextualSorted h tx ctxts) =
           (sort_IsSorted (sortableInputSlice (TxIn (msgTxs h tx))) h \<and>
            length (outArrays h (TxOut (msgTxs h tx))) \<noteq> length ctxts) \<and>
         (length (outArrays h txouts) = length ctxts \<longrightarrow>
            (\<exists>h' s. makeSortableOutputContextSlice h txouts ctxts = Inr (h', s) \<and>
               length (ctxArrays h' s) = length ctxts \<and>
               (\<forall>i<length ctxts.
                  ctxArrays h' s ! i =
                    \<lparr>TxOutPtr = outArrays h txouts ! i, Context = ctxts ! i\<rparr>)))"
  using ContextualSort_panics [OF assms] makeSortableOutputContextSlice_pairs [of h txouts ctxts]
  by (simp add: makeSortableOutputContextSlice_panics InPlaceContextualSort_panics
      IsContextualSorted_panics)

theorem contextual_sort_panics_witness:
  "validTx exampleHeap 7 \<and>
   \<not> isl (ContextualSort exampleHeap 7 [[], []]) \<and>
   \<not> isl (InPlaceContextualSort exampleHeap 7 [[], []]) \<and>
   \<not> isl (IsContextualSorted exampleHeap 7 [[], []]) \<and>
   isl (makeSortableOutputContextSlice exampleHeap 6 [[]]) \<and>
   isl (ContextualSort exampleHeap 7 [[]]) \<and>
   isl (InPlaceContextualSort exampleHeap 7 [[]]) \<and>
   length (outArrays exampleHeap 6) = length [[], [] :: byte list] \<and>
   (\<exists>h' s. makeSortableOutputContextSlice exampleHeap 6 [[], []] = Inr (h', s) \<and>
      ctxArrays h' s ! 0 = \<lparr>TxOutPtr = 3, Context = []\<rparr> \<and>
      ctxArrays h' s ! 1 = \<lparr>TxOutPtr = 4, Context = []\<rparr>)"
proof -
  have v: "validTx exampleHeap 7" by code_simp
  have l: "length (outArrays exampleHeap (TxOut (msgTxs exampleHeap 7))) = 2"
    "length (outArrays exampleHeap 6) = 2"
    by code_simp+
  have o: "outArrays exampleHeap 6 ! 0 = 3" "outArrays exampleHeap 6 ! 1 = 4"
    by code_simp+
  note eq = contextual_sort_panics [OF v, where ctxts = "[[], []]" and txouts = 6]
  note ne = contextual_sort_panics [OF v, where ctxts = "[[]]" and txouts = 6]
  from eq l obtain h' s where
    m: "makeSortableOutputContextSlice exampleHeap 6 [[], []] = Inr (h', s)"
    and p: "\<forall>i<length [[], [] :: byte list].
              ctxArrays h' s ! i =
                \<lparr>TxOutPtr = outArrays exampleHeap 6 ! i, Context = [[], []] ! i\<rparr>"
    by auto
  have "ctxArrays h' s ! 0 = \<lparr>TxOutPtr = 3, Context = []\<rparr>"
    using p [rule_format, of 0] o by simp
  moreover have "ctxArrays h' s ! 1 = \<lparr>TxOutPtr = 4, Context = []\<rparr>"
    using p [rule_format, of 1] o by simp
  ultimately have pairs: "\<exists>h' s. makeSortableOutputContextSlice exampleHeap 6 [[], []] = Inr (h', s) \<and>
      ctxArrays h' s ! 0 = \<lparr>TxOutPtr = 3, Context = []\<rparr> \<and>
      ctxArrays h' s ! 1 = \<lparr>TxOutPtr = 4, Context = []\<rparr>"
    using m by blast
  show ?thesis using v l eq ne pairs by simp
qed

text \<open>
  Claim C10 as stated fails for \<open>IsContextualSorted\<close>: the example transaction has two
  outputs and unsorted inputs; with one context the lengths differ, and the result is
  \<open>false\<close>, not a panic.
\<close>

theorem IsContextualSorted_counterexample:
  "length (outArrays exampleHeap (TxOut (msgTxs exampleHeap 7))) \<noteq> length [[] :: byte list] \<and>
   IsContextualSorted exampleHeap 7 [[]] = Inr False"
  by code_simp

end
